theory Spec2Isabelle
  imports Main "HOL-Library.Multiset"
begin

section \<open>The database seeder of \<open>src/exercises/09-databaseSeeder.code.ts\<close>\<close>

subsection \<open>Records and collections\<close>

text \<open>
  The interfaces \<open>User\<close> and \<open>Post\<close> carry string fields only, and objects are taken
  to have exactly the fields their interface declares. The argument types
  \<open>Omit<User, "id">\<close> and \<open>Omit<Post, "id">\<close> are the same records without \<open>id\<close>; the
  stored record \<open>{...user, id: id}\<close> copies the fields of the argument and adds the
  \<open>id\<close> field. The field \<open>id\<close> is named \<open>user_id\<close> and \<open>post_id\<close> here, since \<open>id\<close>
  is the identity function of HOL.
\<close>

record Omit_User_id =
  name :: string

record User = Omit_User_id +
  user_id :: string

record Omit_Post_id =
  title :: string
  authorId :: string

record Post = Omit_Post_id +
  post_id :: string

text \<open>
  A collection \<open>Record<string, User>\<close> is a plain object used as a dictionary,
  created as \<open>{}\<close> and written only by \<open>this.users[id] = ...\<close>. Such an object has
  own properties and a prototype, and the two are kept apart here: \<open>own\<close> maps the
  keys of the own properties to their records, and \<open>proto\<close> is the record that has
  been made the prototype, \<open>None\<close> while the prototype is still \<open>Object.prototype\<close>.
\<close>

record 'r plain_object =
  own :: "string \<rightharpoonup> 'r"
  proto :: "'r option"

definition empty_object :: "'r plain_object" where
  "empty_object = \<lparr>own = Map.empty, proto = None\<rparr>"

text \<open>
  The assignment \<open>o[k] = v\<close> of a record \<open>v\<close>. For every key but one it creates or
  overwrites the own property \<open>k\<close>. The key \<open>__proto__\<close> is an accessor that \<open>o\<close>
  inherits from \<open>Object.prototype\<close>: the assignment calls its setter, which makes
  \<open>v\<close> the prototype of \<open>o\<close> and creates no own property. (A collection starts as
  \<open>{}\<close> and is written only by this assignment, and a record has only the fields
  of its interface, so no own property named \<open>__proto__\<close> hides the accessor.)
\<close>

definition js_set :: "'r plain_object \<Rightarrow> string \<Rightarrow> 'r \<Rightarrow> 'r plain_object" where
  "js_set obj k v =
     (if k = ''__proto__'' then obj\<lparr>proto := Some v\<rparr> else obj\<lparr>own := (own obj)(k \<mapsto> v)\<rparr>)"

text \<open>
  The read \<open>o[k]\<close>, as far as it returns a record of the collection: the own
  property \<open>k\<close>, and for \<open>__proto__\<close> the prototype record, which the accessor's
  getter returns. The result is \<open>None\<close> where the read returns no such record
  (\<open>undefined\<close>, or a member inherited from the prototype chain).
\<close>

definition js_get :: "'r plain_object \<Rightarrow> string \<Rightarrow> 'r option" where
  "js_get obj k = (if k = ''__proto__'' then proto obj else own obj k)"

type_synonym users_record = "string \<rightharpoonup> User"
type_synonym posts_record = "string \<rightharpoonup> Post"

subsection \<open>Objects and references\<close>

text \<open>
  The builder mutates its two collections in place and \<open>transact\<close> hands the very
  same objects out, so objects live in a store and values of object type are
  references into it. \<open>DbShape\<close> is the shape \<open>{users, posts}\<close> shared by the fields of
  a \<open>DbSeeder\<close> instance and by the object literal that \<open>transact\<close> returns; both
  fields hold references. The store keeps the instances and the two kinds of
  collection apart, and \<open>next_ref\<close> is the next unused address.
\<close>

type_synonym ref = nat

record DbShape =
  users :: ref
  posts :: ref

record heap =
  seeders :: "ref \<Rightarrow> DbShape"
  user_records :: "ref \<Rightarrow> User plain_object"
  post_records :: "ref \<Rightarrow> Post plain_object"
  next_ref :: ref

definition empty_heap :: heap where
  "empty_heap =
     \<lparr>seeders = (\<lambda>r. \<lparr>users = 0, posts = 0\<rparr>),
      user_records = (\<lambda>r. empty_object),
      post_records = (\<lambda>r. empty_object),
      next_ref = 0\<rparr>"

text \<open>
  \<open>new DbSeeder()\<close>: a fresh instance whose field initialisers allocate two fresh
  empty objects, \<open>users = {}\<close> and \<open>posts = {}\<close>.
\<close>

definition new_DbSeeder :: "heap \<Rightarrow> ref \<times> heap" where
  "new_DbSeeder h =
     (let this = next_ref h; u = this + 1; p = this + 2 in
       (this,
        h\<lparr>seeders := (seeders h)(this := \<lparr>users = u, posts = p\<rparr>),
          user_records := (user_records h)(u := empty_object),
          post_records := (post_records h)(p := empty_object),
          next_ref := this + 3\<rparr>))"

text \<open>
  \<open>addUser\<close> and \<open>addPost\<close> are arrow functions bound to their instance \<open>this\<close>. Each
  assigns \<open>{...data, id}\<close> under the key \<open>id\<close> of the collection that the instance's
  field refers to (\<open>js_set\<close>), and returns \<open>this\<close>. Neither has a branch that throws.
\<close>

definition addUser :: "ref \<Rightarrow> string \<Rightarrow> Omit_User_id \<Rightarrow> heap \<Rightarrow> ref \<times> heap" where
  "addUser this ident user h =
     (let u = users (seeders h this) in
       (this,
        h\<lparr>user_records := (user_records h)
             (u := js_set (user_records h u) ident \<lparr>name = name user, user_id = ident\<rparr>)\<rparr>))"

definition addPost :: "ref \<Rightarrow> string \<Rightarrow> Omit_Post_id \<Rightarrow> heap \<Rightarrow> ref \<times> heap" where
  "addPost this ident post h =
     (let p = posts (seeders h this) in
       (this,
        h\<lparr>post_records := (post_records h)
             (p := js_set (post_records h p) ident
                \<lparr>title = title post, authorId = authorId post, post_id = ident\<rparr>)\<rparr>))"

text \<open>
  \<open>transact\<close> is an async function that neither awaits nor throws: the promise it
  returns is fulfilled with the object literal \<open>{users: this.users, posts: this.posts}\<close>,
  which is what the caller's \<open>await\<close> yields. The literal copies the two references,
  not the collections, and the store is left as it was.
\<close>

definition transact :: "ref \<Rightarrow> heap \<Rightarrow> DbShape \<times> heap" where
  "transact this h =
     (\<lparr>users = users (seeders h this), posts = posts (seeders h this)\<rparr>, h)"

subsection \<open>Reading through references\<close>

text \<open>
  What an object of shape \<open>{users, posts}\<close> shows in a given store. \<open>users_of\<close> and
  \<open>posts_of\<close> give what the reads \<open>s.users[k]\<close> and \<open>s.posts[k]\<close> return; \<open>own_users\<close> and
  \<open>own_posts\<close> give the entries the two collections contain, their own
  properties, which is what enumerating or deep-comparing them sees. \<open>deep\<close> pairs
  the reads of both collections: it covers the entries and the prototype record,
  so collections with equal \<open>deep\<close> are deep-equal.
\<close>

definition users_of :: "heap \<Rightarrow> DbShape \<Rightarrow> users_record" where
  "users_of h s = js_get (user_records h (users s))"

definition posts_of :: "heap \<Rightarrow> DbShape \<Rightarrow> posts_record" where
  "posts_of h s = js_get (post_records h (posts s))"

definition own_users :: "heap \<Rightarrow> DbShape \<Rightarrow> users_record" where
  "own_users h s = own (user_records h (users s))"

definition own_posts :: "heap \<Rightarrow> DbShape \<Rightarrow> posts_record" where
  "own_posts h s = own (post_records h (posts s))"

definition deep :: "heap \<Rightarrow> DbShape \<Rightarrow> users_record \<times> posts_record" where
  "deep h s = (users_of h s, posts_of h s)"

subsection \<open>Chains of calls\<close>

text \<open>
  A fluent chain \<open>b.addUser(...).addPost(...)...\<close>: every call is made on the handle
  that the previous call returned.
\<close>

datatype call = AddUser string Omit_User_id | AddPost string Omit_Post_id

fun invoke :: "ref \<Rightarrow> call \<Rightarrow> heap \<Rightarrow> ref \<times> heap" where
  "invoke b (AddUser i u) h = addUser b i u h"
| "invoke b (AddPost i p) h = addPost b i p h"

fun chain :: "call list \<Rightarrow> ref \<Rightarrow> heap \<Rightarrow> ref \<times> heap" where
  "chain [] b h = (b, h)"
| "chain (c # cs) b h = chain cs (fst (invoke b c h)) (snd (invoke b c h))"

text \<open>The function \<open>usage\<close> of the source, up to and including its \<open>await\<close>.\<close>

definition usage :: "heap \<Rightarrow> DbShape \<times> heap" where
  "usage h0 =
     (let (b0, h1) = new_DbSeeder h0;
          (b1, h2) = addUser b0 ''matt'' \<lparr>name = ''Matt''\<rparr> h1;
          (b2, h3) = addPost b1 ''post1'' \<lparr>title = ''Post 2'', authorId = ''matt''\<rparr> h2;
          (b3, h4) = addPost b2 ''post2'' \<lparr>title = ''Post'', authorId = ''matt''\<rparr> h3
      in transact b3 h4)"

text \<open>
  What a builder has accumulated: what the reads \<open>this.users[k]\<close> and
  \<open>this.posts[k]\<close> return.
\<close>

definition this_users :: "heap \<Rightarrow> ref \<Rightarrow> users_record" where
  "this_users h b = js_get (user_records h (users (seeders h b)))"

definition this_posts :: "heap \<Rightarrow> ref \<Rightarrow> posts_record" where
  "this_posts h b = js_get (post_records h (posts (seeders h b)))"

text \<open>
  \<open>build cs\<close> is \<open>new DbSeeder()\<close> followed by the chain \<open>cs\<close>; \<open>seed cs\<close> ends the chain
  with \<open>transact()\<close>, as \<open>usage\<close> does.
\<close>

definition build :: "call list \<Rightarrow> heap \<Rightarrow> ref \<times> heap" where
  "build cs h0 = chain cs (fst (new_DbSeeder h0)) (snd (new_DbSeeder h0))"

definition seed :: "call list \<Rightarrow> heap \<Rightarrow> DbShape \<times> heap" where
  "seed cs h0 = transact (fst (build cs h0)) (snd (build cs h0))"

text \<open>The three calls that \<open>usage\<close> chains between \<open>new DbSeeder()\<close> and \<open>transact()\<close>.\<close>

definition usage_calls :: "call list" where
  "usage_calls =
     [AddUser ''matt'' \<lparr>name = ''Matt''\<rparr>,
      AddPost ''post1'' \<lparr>title = ''Post 2'', authorId = ''matt''\<rparr>,
      AddPost ''post2'' \<lparr>title = ''Post'', authorId = ''matt''\<rparr>]"

text \<open>
  The last of \<open>n + 1\<close> successive calls of \<open>transact()\<close> on the same builder, each made
  in the store its predecessor left.
\<close>

fun transact_times :: "nat \<Rightarrow> ref \<Rightarrow> heap \<Rightarrow> DbShape \<times> heap" where
  "transact_times 0 b h = transact b h"
| "transact_times (Suc n) b h = transact_times n b (snd (transact b h))"

text \<open>
  The category and identifier a call writes to, and the record it leaves there:
  \<open>recorded c h s\<close> says that reading the object \<open>s\<close> under the category and
  identifier of the call \<open>c\<close> returns exactly the record \<open>{...data, id}\<close> of that call.
\<close>

datatype category = Users | Posts

fun key :: "call \<Rightarrow> category \<times> string" where
  "key (AddUser i u) = (Users, i)"
| "key (AddPost i p) = (Posts, i)"

fun recorded :: "call \<Rightarrow> heap \<Rightarrow> DbShape \<Rightarrow> bool" where
  "recorded (AddUser i u) h s \<longleftrightarrow>
     users_of h s i = Some \<lparr>name = name u, user_id = i\<rparr>"
| "recorded (AddPost i p) h s \<longleftrightarrow>
     posts_of h s i = Some \<lparr>title = title p, authorId = authorId p, post_id = i\<rparr>"

section \<open>Basic facts about the operations\<close>

lemma js_get_js_set [simp]: "js_get (js_set obj k v) = (js_get obj)(k \<mapsto> v)"
  by (rule ext) (simp add: js_get_def js_set_def)

lemma js_get_empty [simp]: "js_get empty_object = Map.empty"
  by (rule ext) (simp add: js_get_def empty_object_def)

lemma own_js_set:
  "own (js_set obj k v) = (if k = ''__proto__'' then own obj else (own obj)(k \<mapsto> v))"
  by (simp add: js_set_def)

lemma own_empty [simp]: "own empty_object = Map.empty"
  by (simp add: empty_object_def)

lemma own_is_read: "k \<noteq> ''__proto__'' \<Longrightarrow> own obj k = js_get obj k"
  by (simp add: js_get_def)

lemma addUser_handle [simp]: "fst (addUser b i u h) = b"
  by (simp add: addUser_def Let_def)

lemma addPost_handle [simp]: "fst (addPost b i p h) = b"
  by (simp add: addPost_def Let_def)

lemma addUser_seeders [simp]: "seeders (snd (addUser b i u h)) = seeders h"
  by (simp add: addUser_def Let_def)

lemma addPost_seeders [simp]: "seeders (snd (addPost b i p h)) = seeders h"
  by (simp add: addPost_def Let_def)

lemma addUser_post_records [simp]: "post_records (snd (addUser b i u h)) = post_records h"
  by (simp add: addUser_def Let_def)

lemma addPost_user_records [simp]: "user_records (snd (addPost b i p h)) = user_records h"
  by (simp add: addPost_def Let_def)

lemma addUser_user_records:
  "user_records (snd (addUser b i u h)) =
     (user_records h)(users (seeders h b) :=
        js_set (user_records h (users (seeders h b))) i \<lparr>name = name u, user_id = i\<rparr>)"
  by (simp add: addUser_def Let_def)

lemma addPost_post_records:
  "post_records (snd (addPost b i p h)) =
     (post_records h)(posts (seeders h b) :=
        js_set (post_records h (posts (seeders h b))) i
          \<lparr>title = title p, authorId = authorId p, post_id = i\<rparr>)"
  by (simp add: addPost_def Let_def)

lemma invoke_handle [simp]: "fst (invoke b c h) = b"
  by (cases c) simp_all

lemma invoke_seeders [simp]: "seeders (snd (invoke b c h)) = seeders h"
  by (cases c) simp_all

lemma chain_handle [simp]: "fst (chain cs b h) = b"
  by (induction cs arbitrary: h) simp_all

lemma chain_seeders [simp]: "seeders (snd (chain cs b h)) = seeders h"
  by (induction cs arbitrary: h) simp_all

lemma chain_append: "chain (cs @ ds) b h = chain ds b (snd (chain cs b h))"
  by (induction cs arbitrary: h) simp_all

lemma transact_heap [simp]: "snd (transact b h) = h"
  by (simp add: transact_def)

lemma transact_snapshot [simp]: "fst (transact b h) = seeders h b"
  by (simp add: transact_def)

lemma transact_times_heap [simp]: "snd (transact_times n b h) = h"
  by (induction n arbitrary: h) simp_all

lemma transact_times_snapshot [simp]: "fst (transact_times n b h) = seeders h b"
  by (induction n arbitrary: h) simp_all

lemma transact_times_eq: "transact_times n b h = transact b h"
  by (induction n arbitrary: h) simp_all

lemma build_handle [simp]: "fst (build cs h0) = fst (new_DbSeeder h0)"
  by (simp add: build_def)

subsection \<open>What a chain does to one key\<close>

lemma invoke_users_other_key:
  "(Users, i) \<noteq> key c \<Longrightarrow>
     js_get (user_records (snd (invoke b c h)) r) i = js_get (user_records h r) i"
  by (cases c) (auto simp: addUser_user_records)

lemma invoke_posts_other_key:
  "(Posts, i) \<noteq> key c \<Longrightarrow>
     js_get (post_records (snd (invoke b c h)) r) i = js_get (post_records h r) i"
  by (cases c) (auto simp: addPost_post_records)

lemma chain_users_untouched:
  "(Users, i) \<notin> key ` set cs \<Longrightarrow>
     js_get (user_records (snd (chain cs b h)) r) i = js_get (user_records h r) i"
  by (induction cs arbitrary: h) (simp_all add: invoke_users_other_key)

lemma chain_posts_untouched:
  "(Posts, i) \<notin> key ` set cs \<Longrightarrow>
     js_get (post_records (snd (chain cs b h)) r) i = js_get (post_records h r) i"
  by (induction cs arbitrary: h) (simp_all add: invoke_posts_other_key)

lemma chain_users_last:
  "(Users, i) \<notin> key ` set post \<Longrightarrow>
     this_users (snd (chain (pre @ AddUser i u # post) b h)) b i =
       Some \<lparr>name = name u, user_id = i\<rparr>"
  by (simp add: this_users_def chain_append chain_users_untouched addUser_user_records)

lemma chain_posts_last:
  "(Posts, i) \<notin> key ` set post \<Longrightarrow>
     this_posts (snd (chain (pre @ AddPost i p # post) b h)) b i =
       Some \<lparr>title = title p, authorId = authorId p, post_id = i\<rparr>"
  by (simp add: this_posts_def chain_append chain_posts_untouched addPost_post_records)

lemma last_write:
  assumes "c \<in> set cs"
  obtains pre d post where "cs = pre @ d # post" and "key d = key c"
    and "key c \<notin> key ` set post"
proof -
  from assms have "\<exists>x \<in> set cs. key x = key c" by blast
  then obtain pre d post where "cs = pre @ d # post" "key d = key c"
    "\<forall>z \<in> set post. key z \<noteq> key c"
    using split_list_last_prop[of cs "\<lambda>x. key x = key c"] by blast
  then show thesis by (intro that[of pre d post]) auto
qed

lemma chain_users_present:
  assumes "AddUser i u \<in> set cs"
  shows "\<exists>r. this_users (snd (chain cs b h)) b i = Some r \<and> user_id r = i"
proof -
  from assms obtain pre d post where cs: "cs = pre @ d # post"
    and d: "key d = (Users, i)" and post: "(Users, i) \<notin> key ` set post"
    by (auto elim: last_write)
  from d obtain v where "d = AddUser i v" by (cases d) auto
  with cs post have "this_users (snd (chain cs b h)) b i = Some \<lparr>name = name v, user_id = i\<rparr>"
    by (simp add: chain_users_last)
  then show ?thesis by simp
qed

lemma chain_posts_present:
  assumes "AddPost i p \<in> set cs"
  shows "\<exists>r. this_posts (snd (chain cs b h)) b i = Some r \<and> post_id r = i"
proof -
  from assms obtain pre d post where cs: "cs = pre @ d # post"
    and d: "key d = (Posts, i)" and post: "(Posts, i) \<notin> key ` set post"
    by (auto elim: last_write)
  from d obtain q where "d = AddPost i q" by (cases d) auto
  with cs post have "this_posts (snd (chain cs b h)) b i =
      Some \<lparr>title = title q, authorId = authorId q, post_id = i\<rparr>"
    by (simp add: chain_posts_last)
  then show ?thesis by simp
qed

lemma seed_users [simp]:
  "users_of (snd (seed cs h0)) (fst (seed cs h0)) =
     this_users (snd (build cs h0)) (fst (build cs h0))"
  by (simp add: seed_def users_of_def this_users_def)

lemma seed_posts [simp]:
  "posts_of (snd (seed cs h0)) (fst (seed cs h0)) =
     this_posts (snd (build cs h0)) (fst (build cs h0))"
  by (simp add: seed_def posts_of_def this_posts_def)

lemma usage_seed: "usage h0 = seed usage_calls h0"
  by (simp add: usage_def usage_calls_def seed_def build_def split_beta Let_def)

subsection \<open>What a chain leaves alone\<close>

lemma chain_users_cong:
  "user_records h = user_records h' \<Longrightarrow> seeders h = seeders h' \<Longrightarrow>
     user_records (snd (chain cs b h)) = user_records (snd (chain cs b h'))"
proof (induction cs arbitrary: h h')
  case Nil
  then show ?case by simp
next
  case (Cons c cs)
  have "user_records (snd (invoke b c h)) = user_records (snd (invoke b c h'))"
    using Cons.prems by (cases c) (simp_all add: addUser_user_records)
  moreover have "seeders (snd (invoke b c h)) = seeders (snd (invoke b c h'))"
    using Cons.prems by simp
  ultimately have "user_records (snd (chain cs b (snd (invoke b c h)))) =
      user_records (snd (chain cs b (snd (invoke b c h'))))"
    by (rule Cons.IH)
  then show ?case by simp
qed

lemma chain_posts_cong:
  "post_records h = post_records h' \<Longrightarrow> seeders h = seeders h' \<Longrightarrow>
     post_records (snd (chain cs b h)) = post_records (snd (chain cs b h'))"
proof (induction cs arbitrary: h h')
  case Nil
  then show ?case by simp
next
  case (Cons c cs)
  have "post_records (snd (invoke b c h)) = post_records (snd (invoke b c h'))"
    using Cons.prems by (cases c) (simp_all add: addPost_post_records)
  moreover have "seeders (snd (invoke b c h)) = seeders (snd (invoke b c h'))"
    using Cons.prems by simp
  ultimately have "post_records (snd (chain cs b (snd (invoke b c h)))) =
      post_records (snd (chain cs b (snd (invoke b c h'))))"
    by (rule Cons.IH)
  then show ?case by simp
qed

lemma chain_users_filter:
  "user_records (snd (chain [c \<leftarrow> cs. fst (key c) = Users] b h)) =
     user_records (snd (chain cs b h))"
proof (induction cs arbitrary: h)
  case Nil
  then show ?case by simp
next
  case (Cons c cs)
  show ?case
  proof (cases c)
    case (AddUser i u)
    then show ?thesis using Cons.IH by simp
  next
    case (AddPost i p)
    have "user_records (snd (chain cs b (snd (addPost b i p h)))) =
            user_records (snd (chain cs b h))"
      by (rule chain_users_cong) simp_all
    with AddPost show ?thesis using Cons.IH by simp
  qed
qed

lemma chain_posts_filter:
  "post_records (snd (chain [c \<leftarrow> cs. fst (key c) = Posts] b h)) =
     post_records (snd (chain cs b h))"
proof (induction cs arbitrary: h)
  case Nil
  then show ?case by simp
next
  case (Cons c cs)
  show ?case
  proof (cases c)
    case (AddUser i u)
    have "post_records (snd (chain cs b (snd (addUser b i u h)))) =
            post_records (snd (chain cs b h))"
      by (rule chain_posts_cong) simp_all
    with AddUser show ?thesis using Cons.IH by simp
  next
    case (AddPost i p)
    then show ?thesis using Cons.IH by simp
  qed
qed

subsection \<open>Calls and their keys\<close>

lemma key_Users_call: "key c = (Users, k) \<Longrightarrow> \<exists>v. c = AddUser k v"
  by (cases c) auto

lemma key_Posts_call: "key c = (Posts, k) \<Longrightarrow> \<exists>v. c = AddPost k v"
  by (cases c) auto

lemma key_Users_mem: "(Users, i) \<in> key ` set cs \<Longrightarrow> \<exists>u. AddUser i u \<in> set cs"
proof -
  assume "(Users, i) \<in> key ` set cs"
  then obtain c where c: "c \<in> set cs" "key c = (Users, i)" by auto
  from key_Users_call[OF c(2)] c(1) show ?thesis by auto
qed

lemma key_Posts_mem: "(Posts, i) \<in> key ` set cs \<Longrightarrow> \<exists>p. AddPost i p \<in> set cs"
proof -
  assume "(Posts, i) \<in> key ` set cs"
  then obtain c where c: "c \<in> set cs" "key c = (Posts, i)" by auto
  from key_Posts_call[OF c(2)] c(1) show ?thesis by auto
qed

subsection \<open>Chains whose calls have pairwise distinct keys\<close>

lemma distinct_users_entry:
  assumes "distinct (map key cs)" and "AddUser i u \<in> set cs"
  shows "this_users (snd (chain cs b h)) b i = Some \<lparr>name = name u, user_id = i\<rparr>"
proof -
  from assms(2) obtain pre post where cs: "cs = pre @ AddUser i u # post"
    by (auto dest: split_list)
  with assms(1) have "(Users, i) \<notin> key ` set post" by auto
  with cs show ?thesis by (simp add: chain_users_last)
qed

lemma distinct_posts_entry:
  assumes "distinct (map key cs)" and "AddPost i p \<in> set cs"
  shows "this_posts (snd (chain cs b h)) b i =
           Some \<lparr>title = title p, authorId = authorId p, post_id = i\<rparr>"
proof -
  from assms(2) obtain pre post where cs: "cs = pre @ AddPost i p # post"
    by (auto dest: split_list)
  with assms(1) have "(Posts, i) \<notin> key ` set post" by auto
  with cs show ?thesis by (simp add: chain_posts_last)
qed

lemma reorder_distinct:
  assumes "distinct (map key cs)" and "mset cs' = mset cs"
  shows "distinct (map key cs')" and "set cs' = set cs"
proof -
  from assms(2) have "mset (map key cs') = mset (map key cs)" by simp
  with assms(1) show "distinct (map key cs')"
    using mset_eq_imp_distinct_iff by blast
  from assms(2) show "set cs' = set cs" by (rule mset_eq_setD)
qed

lemma reorder_users:
  assumes "distinct (map key cs)" and "mset cs' = mset cs"
  shows "this_users (snd (chain cs b h)) b = this_users (snd (chain cs' b h)) b"
proof (rule ext)
  fix i
  note r = reorder_distinct[OF assms]
  show "this_users (snd (chain cs b h)) b i = this_users (snd (chain cs' b h)) b i"
  proof (cases "(Users, i) \<in> key ` set cs")
    case True
    then obtain u where u: "AddUser i u \<in> set cs" using key_Users_mem by blast
    with r have "AddUser i u \<in> set cs'" by simp
    with u assms(1) r(1) show ?thesis by (simp add: distinct_users_entry)
  next
    case False
    with r show ?thesis by (simp add: this_users_def chain_users_untouched)
  qed
qed

lemma reorder_posts:
  assumes "distinct (map key cs)" and "mset cs' = mset cs"
  shows "this_posts (snd (chain cs b h)) b = this_posts (snd (chain cs' b h)) b"
proof (rule ext)
  fix i
  note r = reorder_distinct[OF assms]
  show "this_posts (snd (chain cs b h)) b i = this_posts (snd (chain cs' b h)) b i"
  proof (cases "(Posts, i) \<in> key ` set cs")
    case True
    then obtain p where p: "AddPost i p \<in> set cs" using key_Posts_mem by blast
    with r have "AddPost i p \<in> set cs'" by simp
    with p assms(1) r(1) show ?thesis by (simp add: distinct_posts_entry)
  next
    case False
    with r show ?thesis by (simp add: this_posts_def chain_posts_untouched)
  qed
qed

lemma chain_last_recorded:
  "key c \<notin> key ` set post \<Longrightarrow>
     recorded c (snd (chain (pre @ c # post) b h)) (seeders h b)"
proof (cases c)
  case (AddUser i u)
  assume "key c \<notin> key ` set post"
  with AddUser show ?thesis
    using chain_users_last[of i post pre u b h] by (simp add: users_of_def this_users_def)
next
  case (AddPost i p)
  assume "key c \<notin> key ` set post"
  with AddPost show ?thesis
    using chain_posts_last[of i post pre p b h] by (simp add: posts_of_def this_posts_def)
qed

subsection \<open>The contents depend on the calls only\<close>

lemma invoke_users_content:
  "this_users h b = this_users h' b' \<Longrightarrow>
     this_users (snd (invoke b c h)) b = this_users (snd (invoke b' c h')) b'"
  by (cases c) (simp_all add: this_users_def addUser_user_records)

lemma invoke_posts_content:
  "this_posts h b = this_posts h' b' \<Longrightarrow>
     this_posts (snd (invoke b c h)) b = this_posts (snd (invoke b' c h')) b'"
  by (cases c) (simp_all add: this_posts_def addPost_post_records)

lemma chain_users_content:
  "this_users h b = this_users h' b' \<Longrightarrow>
     this_users (snd (chain cs b h)) b = this_users (snd (chain cs b' h')) b'"
proof (induction cs arbitrary: h h')
  case Nil
  then show ?case by simp
next
  case (Cons c cs)
  from Cons.prems
  have "this_users (snd (invoke b c h)) b = this_users (snd (invoke b' c h')) b'"
    by (rule invoke_users_content)
  then have "this_users (snd (chain cs b (snd (invoke b c h)))) b =
      this_users (snd (chain cs b' (snd (invoke b' c h')))) b'"
    by (rule Cons.IH)
  then show ?case by simp
qed

lemma chain_posts_content:
  "this_posts h b = this_posts h' b' \<Longrightarrow>
     this_posts (snd (chain cs b h)) b = this_posts (snd (chain cs b' h')) b'"
proof (induction cs arbitrary: h h')
  case Nil
  then show ?case by simp
next
  case (Cons c cs)
  from Cons.prems
  have "this_posts (snd (invoke b c h)) b = this_posts (snd (invoke b' c h')) b'"
    by (rule invoke_posts_content)
  then have "this_posts (snd (chain cs b (snd (invoke b c h)))) b =
      this_posts (snd (chain cs b' (snd (invoke b' c h')))) b'"
    by (rule Cons.IH)
  then show ?case by simp
qed

lemma new_users_empty: "this_users (snd (new_DbSeeder h0)) (fst (new_DbSeeder h0)) = Map.empty"
  by (simp add: this_users_def new_DbSeeder_def Let_def)

lemma new_posts_empty: "this_posts (snd (new_DbSeeder h0)) (fst (new_DbSeeder h0)) = Map.empty"
  by (simp add: this_posts_def new_DbSeeder_def Let_def)

lemma build_users_store:
  "this_users (snd (build cs h0)) (fst (build cs h0)) =
     this_users (snd (build cs h1)) (fst (build cs h1))"
  unfolding build_def chain_handle
  by (rule chain_users_content) (simp add: new_users_empty)

lemma build_posts_store:
  "this_posts (snd (build cs h0)) (fst (build cs h0)) =
     this_posts (snd (build cs h1)) (fst (build cs h1))"
  unfolding build_def chain_handle
  by (rule chain_posts_content) (simp add: new_posts_empty)

lemma build_users_filter:
  "this_users (snd (build [c \<leftarrow> cs. fst (key c) = Users] h0))
              (fst (build [c \<leftarrow> cs. fst (key c) = Users] h0)) =
     this_users (snd (build cs h0)) (fst (build cs h0))"
  by (simp add: build_def this_users_def chain_users_filter)

lemma build_posts_filter:
  "this_posts (snd (build [c \<leftarrow> cs. fst (key c) = Posts] h0))
              (fst (build [c \<leftarrow> cs. fst (key c) = Posts] h0)) =
     this_posts (snd (build cs h0)) (fst (build cs h0))"
  by (simp add: build_def this_posts_def chain_posts_filter)

subsection \<open>Own entries of the collections\<close>

lemma invoke_own_users_proto:
  "own (user_records (snd (invoke b c h)) r) ''__proto__'' = own (user_records h r) ''__proto__''"
  by (cases c) (simp_all add: addUser_user_records own_js_set)

lemma invoke_own_posts_proto:
  "own (post_records (snd (invoke b c h)) r) ''__proto__'' = own (post_records h r) ''__proto__''"
  by (cases c) (simp_all add: addPost_post_records own_js_set)

lemma chain_own_users_proto:
  "own (user_records (snd (chain cs b h)) r) ''__proto__'' = own (user_records h r) ''__proto__''"
  by (induction cs arbitrary: h) (simp_all add: invoke_own_users_proto)

lemma chain_own_posts_proto:
  "own (post_records (snd (chain cs b h)) r) ''__proto__'' = own (post_records h r) ''__proto__''"
  by (induction cs arbitrary: h) (simp_all add: invoke_own_posts_proto)

lemma seed_own_users_proto:
  "own_users (snd (seed cs h0)) (fst (seed cs h0)) ''__proto__'' = None"
  by (simp add: seed_def build_def own_users_def chain_own_users_proto new_DbSeeder_def Let_def)

lemma seed_own_posts_proto:
  "own_posts (snd (seed cs h0)) (fst (seed cs h0)) ''__proto__'' = None"
  by (simp add: seed_def build_def own_posts_def chain_own_posts_proto new_DbSeeder_def Let_def)

lemma own_users_read:
  "k \<noteq> ''__proto__'' \<Longrightarrow> own_users h s k = users_of h s k"
  by (simp add: own_users_def users_of_def own_is_read)

lemma own_posts_read:
  "k \<noteq> ''__proto__'' \<Longrightarrow> own_posts h s k = posts_of h s k"
  by (simp add: own_posts_def posts_of_def own_is_read)

lemma seed_own_users:
  "own_users (snd (seed cs h0)) (fst (seed cs h0)) =
     (users_of (snd (seed cs h0)) (fst (seed cs h0)))(''__proto__'' := None)"
proof (rule ext)
  fix k
  show "own_users (snd (seed cs h0)) (fst (seed cs h0)) k =
      ((users_of (snd (seed cs h0)) (fst (seed cs h0)))(''__proto__'' := None)) k"
    by (cases "k = ''__proto__''") (simp_all add: seed_own_users_proto own_users_read del: seed_users)
qed

lemma seed_own_posts:
  "own_posts (snd (seed cs h0)) (fst (seed cs h0)) =
     (posts_of (snd (seed cs h0)) (fst (seed cs h0)))(''__proto__'' := None)"
proof (rule ext)
  fix k
  show "own_posts (snd (seed cs h0)) (fst (seed cs h0)) k =
      ((posts_of (snd (seed cs h0)) (fst (seed cs h0)))(''__proto__'' := None)) k"
    by (cases "k = ''__proto__''") (simp_all add: seed_own_posts_proto own_posts_read del: seed_posts)
qed

section \<open>The concrete scenarios\<close>

text \<open>
  Claim C2. From a new \<open>DbSeeder\<close>, the chain \<open>addUser("matt", {name: "Matt"})\<close>,
  \<open>addPost("post1", {title: "Post 2", authorId: "matt"})\<close>,
  \<open>addPost("post2", {title: "Post", authorId: "matt"})\<close>, \<open>transact()\<close> returns a snapshot
  whose users collection is exactly \<open>{matt: {id: "matt", name: "Matt"}}\<close> and whose
  posts collection is exactly \<open>{post1: {id: "post1", title: "Post 2", authorId:
  "matt"}, post2: {id: "post2", title: "Post", authorId: "matt"}}\<close>, whatever the
  store held before: these are the entries the collections contain and the
  records that reads of them return.
\<close>

theorem usage_snapshot:
  "users_of (snd (usage h0)) (fst (usage h0)) =
     [''matt'' \<mapsto> \<lparr>name = ''Matt'', user_id = ''matt''\<rparr>]
   \<and> posts_of (snd (usage h0)) (fst (usage h0)) =
     [''post1'' \<mapsto> \<lparr>title = ''Post 2'', authorId = ''matt'', post_id = ''post1''\<rparr>,
      ''post2'' \<mapsto> \<lparr>title = ''Post'', authorId = ''matt'', post_id = ''post2''\<rparr>]
   \<and> own_users (snd (usage h0)) (fst (usage h0)) =
     [''matt'' \<mapsto> \<lparr>name = ''Matt'', user_id = ''matt''\<rparr>]
   \<and> own_posts (snd (usage h0)) (fst (usage h0)) =
     [''post1'' \<mapsto> \<lparr>title = ''Post 2'', authorId = ''matt'', post_id = ''post1''\<rparr>,
      ''post2'' \<mapsto> \<lparr>title = ''Post'', authorId = ''matt'', post_id = ''post2''\<rparr>]"
  by (simp add: usage_def new_DbSeeder_def addUser_def addPost_def transact_def
      users_of_def posts_of_def own_users_def own_posts_def own_js_set Let_def)

text \<open>
  Claim C8. \<open>transact()\<close> on a newly constructed \<open>DbSeeder\<close>, with no \<open>addUser\<close> or
  \<open>addPost\<close> call made, returns the snapshot \<open>{users: {}, posts: {}}\<close>: both
  collections are empty, containing no entry and returning no record on any read.
\<close>

theorem transact_new_empty:
  "deep (snd (transact (fst (new_DbSeeder h0)) (snd (new_DbSeeder h0))))
        (fst (transact (fst (new_DbSeeder h0)) (snd (new_DbSeeder h0))))
     = (Map.empty, Map.empty)
   \<and> own_users (snd (transact (fst (new_DbSeeder h0)) (snd (new_DbSeeder h0))))
        (fst (transact (fst (new_DbSeeder h0)) (snd (new_DbSeeder h0)))) = Map.empty
   \<and> own_posts (snd (transact (fst (new_DbSeeder h0)) (snd (new_DbSeeder h0))))
        (fst (transact (fst (new_DbSeeder h0)) (snd (new_DbSeeder h0)))) = Map.empty"
  by (simp add: new_DbSeeder_def transact_def deep_def users_of_def posts_of_def
      own_users_def own_posts_def Let_def)

section \<open>Properties of every chain\<close>

text \<open>
  Claim C1, as the code has it. For every finite sequence of \<open>addUser\<close> and \<open>addPost\<close>
  calls made on a newly created \<open>DbSeeder\<close> before \<open>transact()\<close>, and every identifier
  passed to one of those calls: reading the snapshot's corresponding collection
  (users for \<open>addUser\<close>, posts for \<open>addPost\<close>) under that identifier returns a record
  with that identifier as its \<open>id\<close>; and for every identifier other than
  \<open>__proto__\<close> the collection contains an entry keyed by exactly that identifier.
  Under \<open>__proto__\<close> neither collection ever contains an entry.
\<close>

theorem added_ids_entries:
  "(AddUser i u \<in> set cs \<longrightarrow>
      (\<exists>r. users_of (snd (seed cs h0)) (fst (seed cs h0)) i = Some r \<and> user_id r = i)
      \<and> (i \<noteq> ''__proto__'' \<longrightarrow>
          (\<exists>r. own_users (snd (seed cs h0)) (fst (seed cs h0)) i = Some r \<and> user_id r = i)))
   \<and> (AddPost j p \<in> set cs \<longrightarrow>
      (\<exists>q. posts_of (snd (seed cs h0)) (fst (seed cs h0)) j = Some q \<and> post_id q = j)
      \<and> (j \<noteq> ''__proto__'' \<longrightarrow>
          (\<exists>q. own_posts (snd (seed cs h0)) (fst (seed cs h0)) j = Some q \<and> post_id q = j)))
   \<and> own_users (snd (seed cs h0)) (fst (seed cs h0)) ''__proto__'' = None
   \<and> own_posts (snd (seed cs h0)) (fst (seed cs h0)) ''__proto__'' = None"
proof -
  have u: "\<exists>r. users_of (snd (seed cs h0)) (fst (seed cs h0)) i = Some r \<and> user_id r = i"
    if "AddUser i u \<in> set cs"
    using chain_users_present[OF that, of "fst (new_DbSeeder h0)" "snd (new_DbSeeder h0)"]
    by (simp add: build_def)
  have p: "\<exists>q. posts_of (snd (seed cs h0)) (fst (seed cs h0)) j = Some q \<and> post_id q = j"
    if "AddPost j p \<in> set cs"
    using chain_posts_present[OF that, of "fst (new_DbSeeder h0)" "snd (new_DbSeeder h0)"]
    by (simp add: build_def)
  have uo: "\<exists>r. own_users (snd (seed cs h0)) (fst (seed cs h0)) i = Some r \<and> user_id r = i"
    if "AddUser i u \<in> set cs" and "i \<noteq> ''__proto__''"
    using u[OF that(1)] own_users_read[OF that(2)] by (simp del: seed_users)
  have po: "\<exists>q. own_posts (snd (seed cs h0)) (fst (seed cs h0)) j = Some q \<and> post_id q = j"
    if "AddPost j p \<in> set cs" and "j \<noteq> ''__proto__''"
    using p[OF that(1)] own_posts_read[OF that(2)] by (simp del: seed_posts)
  from u p uo po show ?thesis
    using seed_own_users_proto[of cs h0] seed_own_posts_proto[of cs h0] by blast
qed

theorem added_ids_entries_witness:
  "AddUser ''matt'' \<lparr>name = ''Matt''\<rparr> \<in> set usage_calls
   \<and> ''matt'' \<noteq> ''__proto__''
   \<and> (\<exists>r. users_of (snd (seed usage_calls empty_heap)) (fst (seed usage_calls empty_heap))
            ''matt'' = Some r \<and> user_id r = ''matt'')
   \<and> (\<exists>r. own_users (snd (seed usage_calls empty_heap)) (fst (seed usage_calls empty_heap))
            ''matt'' = Some r \<and> user_id r = ''matt'')
   \<and> AddPost ''post2'' \<lparr>title = ''Post'', authorId = ''matt''\<rparr> \<in> set usage_calls
   \<and> ''post2'' \<noteq> ''__proto__''
   \<and> (\<exists>q. posts_of (snd (seed usage_calls empty_heap)) (fst (seed usage_calls empty_heap))
            ''post2'' = Some q \<and> post_id q = ''post2'')
   \<and> (\<exists>q. own_posts (snd (seed usage_calls empty_heap)) (fst (seed usage_calls empty_heap))
            ''post2'' = Some q \<and> post_id q = ''post2'')"
proof -
  have u: "AddUser ''matt'' \<lparr>name = ''Matt''\<rparr> \<in> set usage_calls"
    by (simp add: usage_calls_def)
  have p: "AddPost ''post2'' \<lparr>title = ''Post'', authorId = ''matt''\<rparr> \<in> set usage_calls"
    by (simp add: usage_calls_def)
  have n: "''matt'' \<noteq> ''__proto__''" "''post2'' \<noteq> ''__proto__''"
    by simp_all
  show ?thesis
    using u p n
      added_ids_entries[where i = "''matt''" and u = "\<lparr>name = ''Matt''\<rparr>"
        and cs = usage_calls and ?h0.0 = empty_heap and j = "''post2''"
        and p = "\<lparr>title = ''Post'', authorId = ''matt''\<rparr>"]
    by blast
qed

text \<open>
  Claim C1 as written, that the snapshot contains an entry under every identifier
  passed, fails for the identifier \<open>__proto__\<close>: after \<open>addUser("__proto__", {name:
  "Matt"})\<close> on a new builder the users collection of the snapshot has no entry
  under that key, and no entry at all.
\<close>

theorem proto_id_no_own_entry:
  "AddUser ''__proto__'' \<lparr>name = ''Matt''\<rparr> \<in> set [AddUser ''__proto__'' \<lparr>name = ''Matt''\<rparr>]
   \<and> own_users (snd (seed [AddUser ''__proto__'' \<lparr>name = ''Matt''\<rparr>] empty_heap))
                (fst (seed [AddUser ''__proto__'' \<lparr>name = ''Matt''\<rparr>] empty_heap))
                ''__proto__'' = None
   \<and> own_users (snd (seed [AddUser ''__proto__'' \<lparr>name = ''Matt''\<rparr>] empty_heap))
                (fst (seed [AddUser ''__proto__'' \<lparr>name = ''Matt''\<rparr>] empty_heap))
      = Map.empty"
  by (simp add: seed_def build_def own_users_def new_DbSeeder_def empty_heap_def addUser_def
      own_js_set Let_def)

text \<open>
  Claim C3. For either category, every identifier \<open>A\<close> and every two data records \<open>X\<close>
  and \<open>Z\<close>: inserting \<open>(A, X)\<close> and then \<open>(A, Z)\<close> into the same category, after any
  earlier calls, fails nowhere (no operation of the model has a failing branch), and
  committing gives a snapshot whose read \<open>snapshot[category][A]\<close> returns exactly
  \<open>{...Z, id: A}\<close>; nothing of \<open>X\<close> is left in it.
\<close>

theorem last_write_wins:
  "users_of (snd (seed (pre @ [AddUser a x, AddUser a z]) h0))
            (fst (seed (pre @ [AddUser a x, AddUser a z]) h0)) a
     = Some \<lparr>name = name z, user_id = a\<rparr>
   \<and> posts_of (snd (seed (pre @ [AddPost a y, AddPost a w]) h0))
              (fst (seed (pre @ [AddPost a y, AddPost a w]) h0)) a
     = Some \<lparr>title = title w, authorId = authorId w, post_id = a\<rparr>"
  by (simp add: build_def chain_append this_users_def this_posts_def
      addUser_user_records addPost_post_records)

text \<open>
  Claim C7. Categories are independent: \<open>addUser\<close> leaves every posts collection as it
  was and \<open>addPost\<close> leaves every users collection as it was, so for every chain the
  users collection of the snapshot is the one that the \<open>addUser\<close> calls of the chain
  alone produce on a new builder, and the posts collection is the one that its
  \<open>addPost\<close> calls alone produce.
\<close>

theorem categories_independent:
  "post_records (snd (addUser b i u h)) = post_records h
   \<and> user_records (snd (addPost b j p h)) = user_records h
   \<and> users_of (snd (seed cs h0)) (fst (seed cs h0)) =
       users_of (snd (seed [c \<leftarrow> cs. fst (key c) = Users] h1))
                (fst (seed [c \<leftarrow> cs. fst (key c) = Users] h1))
   \<and> posts_of (snd (seed cs h0)) (fst (seed cs h0)) =
       posts_of (snd (seed [c \<leftarrow> cs. fst (key c) = Posts] h1))
                (fst (seed [c \<leftarrow> cs. fst (key c) = Posts] h1))
   \<and> own_users (snd (seed cs h0)) (fst (seed cs h0)) =
       own_users (snd (seed [c \<leftarrow> cs. fst (key c) = Users] h1))
                 (fst (seed [c \<leftarrow> cs. fst (key c) = Users] h1))
   \<and> own_posts (snd (seed cs h0)) (fst (seed cs h0)) =
       own_posts (snd (seed [c \<leftarrow> cs. fst (key c) = Posts] h1))
                 (fst (seed [c \<leftarrow> cs. fst (key c) = Posts] h1))"
proof -
  have "this_users (snd (build cs h0)) (fst (build cs h0)) =
      this_users (snd (build [c \<leftarrow> cs. fst (key c) = Users] h1))
                 (fst (build [c \<leftarrow> cs. fst (key c) = Users] h1))"
    using build_users_filter[of cs h0] build_users_store[of "[c \<leftarrow> cs. fst (key c) = Users]" h0 h1]
    by (simp del: build_handle)
  moreover have "this_posts (snd (build cs h0)) (fst (build cs h0)) =
      this_posts (snd (build [c \<leftarrow> cs. fst (key c) = Posts] h1))
                 (fst (build [c \<leftarrow> cs. fst (key c) = Posts] h1))"
    using build_posts_filter[of cs h0] build_posts_store[of "[c \<leftarrow> cs. fst (key c) = Posts]" h0 h1]
    by (simp del: build_handle)
  ultimately show ?thesis by (simp add: seed_own_users seed_own_posts)
qed

text \<open>
  Claim C9. Key and \<open>id\<close> agree, as an invariant: in every builder state reached from a
  new \<open>DbSeeder\<close> by a sequence of \<open>addUser\<close> and \<open>addPost\<close> calls, and in every snapshot
  that \<open>transact()\<close> returns there, a record stored under key \<open>k\<close> of the users or of
  the posts collection has \<open>k\<close> as its \<open>id\<close> field. This holds for the record that a
  read under \<open>k\<close> returns and for the entry the collection contains under \<open>k\<close>.
\<close>

theorem key_is_id:
  "(this_users (snd (build cs h0)) (fst (build cs h0)) k = Some r \<longrightarrow> user_id r = k)
   \<and> (this_posts (snd (build cs h0)) (fst (build cs h0)) k' = Some q \<longrightarrow> post_id q = k')
   \<and> (users_of (snd (seed cs h0)) (fst (seed cs h0)) k = Some r \<longrightarrow> user_id r = k)
   \<and> (posts_of (snd (seed cs h0)) (fst (seed cs h0)) k' = Some q \<longrightarrow> post_id q = k')
   \<and> (own_users (snd (seed cs h0)) (fst (seed cs h0)) k = Some r \<longrightarrow> user_id r = k)
   \<and> (own_posts (snd (seed cs h0)) (fst (seed cs h0)) k' = Some q \<longrightarrow> post_id q = k')"
proof -
  have u: "user_id r = k"
    if "this_users (snd (build cs h0)) (fst (build cs h0)) k = Some r"
  proof (cases "(Users, k) \<in> key ` set cs")
    case True
    then obtain c where "c \<in> set cs" "key c = (Users, k)" by auto
    then obtain v where "AddUser k v \<in> set cs" using key_Users_call by blast
    from chain_users_present[OF this, where b = "fst (new_DbSeeder h0)"
        and h = "snd (new_DbSeeder h0)"] that show ?thesis
      by (auto simp: build_def)
  next
    case False
    with that show ?thesis
      by (simp add: build_def this_users_def chain_users_untouched new_DbSeeder_def Let_def)
  qed
  have p: "post_id q = k'"
    if "this_posts (snd (build cs h0)) (fst (build cs h0)) k' = Some q"
  proof (cases "(Posts, k') \<in> key ` set cs")
    case True
    then obtain c where "c \<in> set cs" "key c = (Posts, k')" by auto
    then obtain v where "AddPost k' v \<in> set cs" using key_Posts_call by blast
    from chain_posts_present[OF this, where b = "fst (new_DbSeeder h0)"
        and h = "snd (new_DbSeeder h0)"] that show ?thesis
      by (auto simp: build_def)
  next
    case False
    with that show ?thesis
      by (simp add: build_def this_posts_def chain_posts_untouched new_DbSeeder_def Let_def)
  qed
  have uo: "this_users (snd (build cs h0)) (fst (build cs h0)) k = Some r"
    if "own_users (snd (seed cs h0)) (fst (seed cs h0)) k = Some r"
    using that by (simp add: seed_own_users split: if_splits)
  have po: "this_posts (snd (build cs h0)) (fst (build cs h0)) k' = Some q"
    if "own_posts (snd (seed cs h0)) (fst (seed cs h0)) k' = Some q"
    using that by (simp add: seed_own_posts split: if_splits)
  from u p uo po show ?thesis by simp
qed

theorem key_is_id_witness:
  "this_users (snd (build usage_calls empty_heap)) (fst (build usage_calls empty_heap)) ''matt''
     = Some \<lparr>name = ''Matt'', user_id = ''matt''\<rparr>
   \<and> user_id \<lparr>name = ''Matt'', user_id = ''matt''\<rparr> = ''matt''
   \<and> this_posts (snd (build usage_calls empty_heap)) (fst (build usage_calls empty_heap)) ''post1''
     = Some \<lparr>title = ''Post 2'', authorId = ''matt'', post_id = ''post1''\<rparr>
   \<and> post_id \<lparr>title = ''Post 2'', authorId = ''matt'', post_id = ''post1''\<rparr> = ''post1''
   \<and> users_of (snd (seed usage_calls empty_heap)) (fst (seed usage_calls empty_heap)) ''matt''
     = Some \<lparr>name = ''Matt'', user_id = ''matt''\<rparr>
   \<and> posts_of (snd (seed usage_calls empty_heap)) (fst (seed usage_calls empty_heap)) ''post1''
     = Some \<lparr>title = ''Post 2'', authorId = ''matt'', post_id = ''post1''\<rparr>
   \<and> own_users (snd (seed usage_calls empty_heap)) (fst (seed usage_calls empty_heap)) ''matt''
     = Some \<lparr>name = ''Matt'', user_id = ''matt''\<rparr>
   \<and> own_posts (snd (seed usage_calls empty_heap)) (fst (seed usage_calls empty_heap)) ''post1''
     = Some \<lparr>title = ''Post 2'', authorId = ''matt'', post_id = ''post1''\<rparr>"
proof -
  have u: "this_users (snd (build usage_calls empty_heap)) (fst (build usage_calls empty_heap))
      ''matt'' = Some \<lparr>name = ''Matt'', user_id = ''matt''\<rparr>"
    by (simp add: build_def usage_calls_def this_users_def new_DbSeeder_def empty_heap_def
        addUser_def addPost_def Let_def)
  have p: "this_posts (snd (build usage_calls empty_heap)) (fst (build usage_calls empty_heap))
      ''post1'' = Some \<lparr>title = ''Post 2'', authorId = ''matt'', post_id = ''post1''\<rparr>"
    by (simp add: build_def usage_calls_def this_posts_def new_DbSeeder_def empty_heap_def
        addUser_def addPost_def Let_def)
  have uo: "own_users (snd (seed usage_calls empty_heap)) (fst (seed usage_calls empty_heap))
      ''matt'' = Some \<lparr>name = ''Matt'', user_id = ''matt''\<rparr>"
    using u by (simp add: seed_own_users)
  have po: "own_posts (snd (seed usage_calls empty_heap)) (fst (seed usage_calls empty_heap))
      ''post1'' = Some \<lparr>title = ''Post 2'', authorId = ''matt'', post_id = ''post1''\<rparr>"
    using p by (simp add: seed_own_posts)
  show ?thesis
    using u p uo po
      key_is_id[where cs = usage_calls and ?h0.0 = empty_heap and k = "''matt''"
        and r = "\<lparr>name = ''Matt'', user_id = ''matt''\<rparr>" and k' = "''post1''"
        and q = "\<lparr>title = ''Post 2'', authorId = ''matt'', post_id = ''post1''\<rparr>"]
    by simp
qed

text \<open>
  Claim C10. For every builder \<open>b\<close> and all arguments, the handle that \<open>b.addUser(id,
  user)\<close> and \<open>b.addPost(id, post)\<close> return is the reference \<open>b\<close> itself, and the
  instance still refers to the same two collections. So every handle along a chain
  is \<open>b\<close>, and continuing from a saved intermediate handle gives the same result as
  chaining directly.
\<close>

theorem handle_is_this:
  "fst (addUser b i u h) = b \<and> seeders (snd (addUser b i u h)) = seeders h
   \<and> fst (addPost b j p h) = b \<and> seeders (snd (addPost b j p h)) = seeders h
   \<and> fst (chain cs b h) = b
   \<and> chain ds (fst (chain cs b h)) (snd (chain cs b h)) = chain (cs @ ds) b h"
  by (simp add: chain_append)

section \<open>Order of the calls\<close>

text \<open>
  Claim C6. For add-operations whose identifiers are pairwise distinct within each
  category, any two orderings of them, each made on a new builder of its own and
  followed by \<open>transact()\<close>, give deep-equal snapshots: the collections contain the
  same entries and return the same records on every read. Where a sequence holds two
  operations \<open>d\<close> and \<open>c\<close> with the same category and identifier, \<open>c\<close> after \<open>d\<close>, the
  snapshot holds the data of the later one, \<open>c\<close> (no operation on that category and
  identifier following \<open>c\<close>: of several, the last one wins).
\<close>

theorem order_irrelevant_later_wins:
  "(distinct (map key cs) \<and> mset cs' = mset cs \<longrightarrow>
      deep (snd (seed cs h0)) (fst (seed cs h0)) = deep (snd (seed cs' h1)) (fst (seed cs' h1))
      \<and> own_users (snd (seed cs h0)) (fst (seed cs h0)) =
          own_users (snd (seed cs' h1)) (fst (seed cs' h1))
      \<and> own_posts (snd (seed cs h0)) (fst (seed cs h0)) =
          own_posts (snd (seed cs' h1)) (fst (seed cs' h1)))
   \<and> (key d = key c \<and> key c \<notin> key ` set post \<longrightarrow>
      recorded c (snd (seed (pre @ d # mid @ c # post) h0))
                 (fst (seed (pre @ d # mid @ c # post) h0)))"
proof -
  have "recorded c (snd (seed (pre @ d # mid @ c # post) h0))
                   (fst (seed (pre @ d # mid @ c # post) h0))"
    if "key c \<notin> key ` set post"
    using chain_last_recorded[OF that, of "pre @ d # mid"
        "fst (new_DbSeeder h0)" "snd (new_DbSeeder h0)"]
    by (simp add: seed_def build_def)
  moreover have "deep (snd (seed cs h0)) (fst (seed cs h0)) =
      deep (snd (seed cs' h1)) (fst (seed cs' h1))
      \<and> own_users (snd (seed cs h0)) (fst (seed cs h0)) =
          own_users (snd (seed cs' h1)) (fst (seed cs' h1))
      \<and> own_posts (snd (seed cs h0)) (fst (seed cs h0)) =
          own_posts (snd (seed cs' h1)) (fst (seed cs' h1))"
    if "distinct (map key cs)" and "mset cs' = mset cs"
  proof -
    have "this_users (snd (build cs h0)) (fst (build cs h0)) =
        this_users (snd (build cs' h0)) (fst (build cs' h0))"
      using reorder_users[OF that, of "fst (new_DbSeeder h0)" "snd (new_DbSeeder h0)"]
      by (simp add: build_def)
    moreover have "this_posts (snd (build cs h0)) (fst (build cs h0)) =
        this_posts (snd (build cs' h0)) (fst (build cs' h0))"
      using reorder_posts[OF that, of "fst (new_DbSeeder h0)" "snd (new_DbSeeder h0)"]
      by (simp add: build_def)
    ultimately show ?thesis
      using build_users_store[of cs' h0 h1] build_posts_store[of cs' h0 h1]
      by (simp add: deep_def seed_own_users seed_own_posts del: build_handle)
  qed
  ultimately show ?thesis by blast
qed

theorem order_irrelevant_later_wins_witness:
  "distinct (map key usage_calls) \<and> mset (rev usage_calls) = mset usage_calls
   \<and> deep (snd (seed usage_calls empty_heap)) (fst (seed usage_calls empty_heap)) =
       deep (snd (seed (rev usage_calls) (snd (seed usage_calls empty_heap))))
            (fst (seed (rev usage_calls) (snd (seed usage_calls empty_heap))))
   \<and> own_users (snd (seed usage_calls empty_heap)) (fst (seed usage_calls empty_heap)) =
       own_users (snd (seed (rev usage_calls) (snd (seed usage_calls empty_heap))))
                 (fst (seed (rev usage_calls) (snd (seed usage_calls empty_heap))))
   \<and> own_posts (snd (seed usage_calls empty_heap)) (fst (seed usage_calls empty_heap)) =
       own_posts (snd (seed (rev usage_calls) (snd (seed usage_calls empty_heap))))
                 (fst (seed (rev usage_calls) (snd (seed usage_calls empty_heap))))
   \<and> key (AddUser ''matt'' \<lparr>name = ''Matt''\<rparr>) = key (AddUser ''matt'' \<lparr>name = ''Matthew''\<rparr>)
   \<and> key (AddUser ''matt'' \<lparr>name = ''Matthew''\<rparr>) \<notin> key ` set []
   \<and> recorded (AddUser ''matt'' \<lparr>name = ''Matthew''\<rparr>)
        (snd (seed ([] @ AddUser ''matt'' \<lparr>name = ''Matt''\<rparr> # [] @
                    AddUser ''matt'' \<lparr>name = ''Matthew''\<rparr> # []) empty_heap))
        (fst (seed ([] @ AddUser ''matt'' \<lparr>name = ''Matt''\<rparr> # [] @
                    AddUser ''matt'' \<lparr>name = ''Matthew''\<rparr> # []) empty_heap))"
proof -
  have d: "distinct (map key usage_calls)" by (simp add: usage_calls_def)
  have m: "mset (rev usage_calls) = mset usage_calls" by simp
  show ?thesis
    using d m
      order_irrelevant_later_wins[where cs = usage_calls and cs' = "rev usage_calls"
        and ?h0.0 = empty_heap and ?h1.0 = "snd (seed usage_calls empty_heap)"
        and d = "AddUser ''matt'' \<lparr>name = ''Matt''\<rparr>"
        and c = "AddUser ''matt'' \<lparr>name = ''Matthew''\<rparr>" and post = "[]"
        and pre = "[]" and mid = "[]"]
    by simp
qed

section \<open>Repeated commits\<close>

text \<open>
  Claim C5, as the code has it. \<open>transact()\<close> is idempotent: called any number of times
  on an unmodified builder, it returns the same snapshot and leaves the store as it
  was. After accumulating \<open>(C1, A, X)\<close> and then \<open>(C2, B, Y)\<close>, every such snapshot shows
  \<open>{...X, id: A}\<close> under \<open>C1\<close>, \<open>A\<close> and \<open>{...Y, id: B}\<close> under \<open>C2\<close>, \<open>B\<close>, provided the two
  entries do not share category and identifier with different data.
\<close>

theorem transact_idempotent:
  "(key c1 = key c2 \<longrightarrow> c1 = c2) \<longrightarrow>
     transact_times n b (snd (chain [c1, c2] b h)) = transact b (snd (chain [c1, c2] b h))
     \<and> recorded c1 (snd (transact_times n b (snd (chain [c1, c2] b h))))
                    (fst (transact_times n b (snd (chain [c1, c2] b h))))
     \<and> recorded c2 (snd (transact_times n b (snd (chain [c1, c2] b h))))
                    (fst (transact_times n b (snd (chain [c1, c2] b h))))"
proof (intro impI conjI)
  show "transact_times n b (snd (chain [c1, c2] b h)) = transact b (snd (chain [c1, c2] b h))"
    by (rule transact_times_eq)
next
  assume k: "key c1 = key c2 \<longrightarrow> c1 = c2"
  have "recorded c2 (snd (chain ([c1] @ c2 # []) b h)) (seeders h b)"
    by (rule chain_last_recorded) simp
  then show "recorded c2 (snd (transact_times n b (snd (chain [c1, c2] b h))))
                  (fst (transact_times n b (snd (chain [c1, c2] b h))))"
    by simp
  show "recorded c1 (snd (transact_times n b (snd (chain [c1, c2] b h))))
                  (fst (transact_times n b (snd (chain [c1, c2] b h))))"
  proof (cases "key c1 = key c2")
    case True
    with k have "c1 = c2" by simp
    with \<open>recorded c2 (snd (transact_times n b (snd (chain [c1, c2] b h))))
                  (fst (transact_times n b (snd (chain [c1, c2] b h))))\<close>
    show ?thesis by simp
  next
    case False
    then have "key c1 \<notin> key ` set [c2]" by simp
    then have "recorded c1 (snd (chain ([] @ c1 # [c2]) b h)) (seeders h b)"
      by (rule chain_last_recorded)
    then show ?thesis by simp
  qed
qed

theorem transact_idempotent_witness:
  "key (AddUser ''matt'' \<lparr>name = ''Matt''\<rparr>)
      \<noteq> key (AddPost ''post1'' \<lparr>title = ''Post 2'', authorId = ''matt''\<rparr>) \<and>
   recorded (AddUser ''matt'' \<lparr>name = ''Matt''\<rparr>)
     (snd (transact_times 2 (fst (new_DbSeeder empty_heap)) (snd (chain
        [AddUser ''matt'' \<lparr>name = ''Matt''\<rparr>,
         AddPost ''post1'' \<lparr>title = ''Post 2'', authorId = ''matt''\<rparr>]
        (fst (new_DbSeeder empty_heap)) (snd (new_DbSeeder empty_heap))))))
     (fst (transact_times 2 (fst (new_DbSeeder empty_heap)) (snd (chain
        [AddUser ''matt'' \<lparr>name = ''Matt''\<rparr>,
         AddPost ''post1'' \<lparr>title = ''Post 2'', authorId = ''matt''\<rparr>]
        (fst (new_DbSeeder empty_heap)) (snd (new_DbSeeder empty_heap)))))) \<and>
   recorded (AddPost ''post1'' \<lparr>title = ''Post 2'', authorId = ''matt''\<rparr>)
     (snd (transact_times 2 (fst (new_DbSeeder empty_heap)) (snd (chain
        [AddUser ''matt'' \<lparr>name = ''Matt''\<rparr>,
         AddPost ''post1'' \<lparr>title = ''Post 2'', authorId = ''matt''\<rparr>]
        (fst (new_DbSeeder empty_heap)) (snd (new_DbSeeder empty_heap))))))
     (fst (transact_times 2 (fst (new_DbSeeder empty_heap)) (snd (chain
        [AddUser ''matt'' \<lparr>name = ''Matt''\<rparr>,
         AddPost ''post1'' \<lparr>title = ''Post 2'', authorId = ''matt''\<rparr>]
        (fst (new_DbSeeder empty_heap)) (snd (new_DbSeeder empty_heap))))))"
proof -
  have k: "key (AddUser ''matt'' \<lparr>name = ''Matt''\<rparr>)
      \<noteq> key (AddPost ''post1'' \<lparr>title = ''Post 2'', authorId = ''matt''\<rparr>)"
    by simp
  show ?thesis
    using k
      transact_idempotent[where ?c1.0 = "AddUser ''matt'' \<lparr>name = ''Matt''\<rparr>"
        and ?c2.0 = "AddPost ''post1'' \<lparr>title = ''Post 2'', authorId = ''matt''\<rparr>"
        and n = 2 and b = "fst (new_DbSeeder empty_heap)"
        and h = "snd (new_DbSeeder empty_heap)"]
    by blast
qed

text \<open>
  Claim C5 as written also covers two entries with the same category and
  identifier. There the second call overwrites the first: after
  \<open>addUser("a", {name: "x"})\<close> and \<open>addUser("a", {name: "y"})\<close> the snapshot shows
  \<open>{name: "y", id: "a"}\<close> under \<open>a\<close>, not \<open>{name: "x", id: "a"}\<close>.
\<close>

theorem transact_same_key_overwritten:
  "\<not> recorded (AddUser ''a'' \<lparr>name = ''x''\<rparr>)
       (snd (seed [AddUser ''a'' \<lparr>name = ''x''\<rparr>, AddUser ''a'' \<lparr>name = ''y''\<rparr>] empty_heap))
       (fst (seed [AddUser ''a'' \<lparr>name = ''x''\<rparr>, AddUser ''a'' \<lparr>name = ''y''\<rparr>] empty_heap))
   \<and> recorded (AddUser ''a'' \<lparr>name = ''y''\<rparr>)
       (snd (seed [AddUser ''a'' \<lparr>name = ''x''\<rparr>, AddUser ''a'' \<lparr>name = ''y''\<rparr>] empty_heap))
       (fst (seed [AddUser ''a'' \<lparr>name = ''x''\<rparr>, AddUser ''a'' \<lparr>name = ''y''\<rparr>] empty_heap))"
  by (simp add: build_def this_users_def new_DbSeeder_def empty_heap_def addUser_def Let_def)

section \<open>The snapshot and later calls\<close>

text \<open>
  Claim C4, as the code has it. The object that \<open>transact()\<close> returns holds the
  builder's own two collections, not copies. When \<open>transact()\<close> returns, the snapshot
  shows the state accumulated so far. After any further \<open>addUser\<close> and \<open>addPost\<close> calls
  on the builder, it shows the builder's current accumulated state: an entry whose
  category and identifier no later call writes is unchanged, and every other entry
  is the one the later calls left.
\<close>

theorem snapshot_is_live_view:
  "deep (snd (transact b h)) (fst (transact b h)) = (this_users h b, this_posts h b)
   \<and> deep (snd (chain cs b (snd (transact b h)))) (fst (transact b h)) =
       (this_users (snd (chain cs b h)) b, this_posts (snd (chain cs b h)) b)
   \<and> ((Users, i) \<notin> key ` set cs \<longrightarrow>
        users_of (snd (chain cs b (snd (transact b h)))) (fst (transact b h)) i =
        users_of (snd (transact b h)) (fst (transact b h)) i)
   \<and> ((Posts, j) \<notin> key ` set cs \<longrightarrow>
        posts_of (snd (chain cs b (snd (transact b h)))) (fst (transact b h)) j =
        posts_of (snd (transact b h)) (fst (transact b h)) j)"
  by (simp add: deep_def users_of_def posts_of_def this_users_def this_posts_def
      chain_users_untouched chain_posts_untouched)

theorem snapshot_is_live_view_witness:
  "(Users, ''matt'') \<notin> key ` set [AddUser ''joel'' \<lparr>name = ''Joel''\<rparr>]
   \<and> users_of (snd (chain [AddUser ''joel'' \<lparr>name = ''Joel''\<rparr>]
          (fst (build usage_calls empty_heap)) (snd (seed usage_calls empty_heap))))
        (fst (seed usage_calls empty_heap)) ''matt'' =
      users_of (snd (seed usage_calls empty_heap)) (fst (seed usage_calls empty_heap)) ''matt''
   \<and> (Posts, ''post1'') \<notin> key ` set [AddUser ''joel'' \<lparr>name = ''Joel''\<rparr>]
   \<and> posts_of (snd (chain [AddUser ''joel'' \<lparr>name = ''Joel''\<rparr>]
          (fst (build usage_calls empty_heap)) (snd (seed usage_calls empty_heap))))
        (fst (seed usage_calls empty_heap)) ''post1'' =
      posts_of (snd (seed usage_calls empty_heap)) (fst (seed usage_calls empty_heap)) ''post1''"
proof -
  have u: "(Users, ''matt'') \<notin> key ` set [AddUser ''joel'' \<lparr>name = ''Joel''\<rparr>]" by simp
  have p: "(Posts, ''post1'') \<notin> key ` set [AddUser ''joel'' \<lparr>name = ''Joel''\<rparr>]" by simp
  show ?thesis
    using u p
      snapshot_is_live_view[where b = "fst (build usage_calls empty_heap)"
        and h = "snd (build usage_calls empty_heap)"
        and cs = "[AddUser ''joel'' \<lparr>name = ''Joel''\<rparr>]"
        and i = "''matt''" and j = "''post1''"]
    unfolding seed_def by blast
qed

text \<open>
  Claim C4 as written, that the snapshot stays as it was at the moment of the
  \<open>transact()\<close> call, fails on the builder of \<open>usage\<close>: one more \<open>addUser("joel", {name:
  "Joel"})\<close> after \<open>transact()\<close> changes what the snapshot shows, by an entry \<open>joel\<close>
  that its users collection did not contain before.
\<close>

theorem snapshot_changes_after_add:
  "deep (snd (addUser (fst (build usage_calls empty_heap)) ''joel'' \<lparr>name = ''Joel''\<rparr>
               (snd (seed usage_calls empty_heap))))
        (fst (seed usage_calls empty_heap))
   \<noteq> deep (snd (seed usage_calls empty_heap)) (fst (seed usage_calls empty_heap))
   \<and> own_users (snd (seed usage_calls empty_heap)) (fst (seed usage_calls empty_heap)) ''joel''
       = None
   \<and> own_users (snd (addUser (fst (build usage_calls empty_heap)) ''joel'' \<lparr>name = ''Joel''\<rparr>
               (snd (seed usage_calls empty_heap))))
        (fst (seed usage_calls empty_heap)) ''joel''
       = Some \<lparr>name = ''Joel'', user_id = ''joel''\<rparr>"
proof (intro conjI notI)
  assume "deep (snd (addUser (fst (build usage_calls empty_heap)) ''joel'' \<lparr>name = ''Joel''\<rparr>
               (snd (seed usage_calls empty_heap))))
        (fst (seed usage_calls empty_heap))
   = deep (snd (seed usage_calls empty_heap)) (fst (seed usage_calls empty_heap))"
  then have "users_of (snd (addUser (fst (build usage_calls empty_heap)) ''joel''
               \<lparr>name = ''Joel''\<rparr> (snd (seed usage_calls empty_heap))))
        (fst (seed usage_calls empty_heap)) ''joel''
    = users_of (snd (seed usage_calls empty_heap)) (fst (seed usage_calls empty_heap)) ''joel''"
    by (simp add: deep_def)
  then show False
    by (simp add: seed_def build_def usage_calls_def users_of_def new_DbSeeder_def
        empty_heap_def addUser_def addPost_def transact_def Let_def)
next
  show "own_users (snd (seed usage_calls empty_heap)) (fst (seed usage_calls empty_heap)) ''joel''
       = None"
    by (simp add: seed_def build_def usage_calls_def own_users_def new_DbSeeder_def
        empty_heap_def addUser_def addPost_def transact_def own_js_set Let_def)
next
  show "own_users (snd (addUser (fst (build usage_calls empty_heap)) ''joel'' \<lparr>name = ''Joel''\<rparr>
               (snd (seed usage_calls empty_heap))))
        (fst (seed usage_calls empty_heap)) ''joel''
       = Some \<lparr>name = ''Joel'', user_id = ''joel''\<rparr>"
    by (simp add: seed_def build_def usage_calls_def own_users_def new_DbSeeder_def
        empty_heap_def addUser_def addPost_def transact_def own_js_set Let_def)
qed

end
